theory Spec2Isabelle
  imports Main "HOL-Library.Word"
begin

section \<open>GL version string parsing (\<open>GlContext::ParseGlVersion\<close>)\<close>

text \<open>
  \<open>absl::string_view::find(char)\<close>: the index of the first occurrence, or \<open>npos\<close>
  (here \<open>None\<close>).
\<close>

primrec sv_find :: "string \<Rightarrow> char \<Rightarrow> nat option" where
  "sv_find [] c = None"
| "sv_find (x # xs) c = (if x = c then Some 0 else map_option Suc (sv_find xs c))"

text \<open>
  \<open>string_view::substr(pos, n)\<close> for \<open>pos\<close> within the string; the count \<open>npos\<close>
  (\<open>None\<close>) means "to the end".
\<close>

definition sv_substr :: "string \<Rightarrow> nat \<Rightarrow> nat option \<Rightarrow> string" where
  "sv_substr s pos n = (case n of None \<Rightarrow> drop pos s | Some k \<Rightarrow> take k (drop pos s))"

definition isdigit :: "char \<Rightarrow> bool" where
  "isdigit c = (48 \<le> (of_char c :: nat) \<and> (of_char c :: nat) \<le> 57)"

text \<open>
  The loop \<open>while (start > 0 && isdigit(version_string[start - 1])) --start;\<close>
\<close>

fun walk_back :: "string \<Rightarrow> nat \<Rightarrow> nat" where
  "walk_back s start =
     (if start > 0 \<and> isdigit (s ! (start - 1)) then walk_back s (start - 1) else start)"

declare walk_back.simps [simp del]

text \<open>
  What a call leaves in an output parameter (\<open>GLint* major\<close>, \<open>GLint* minor\<close>): the
  function did not write it, a successful \<open>SimpleAtoi\<close> wrote a value, or a failed
  \<open>SimpleAtoi\<close> left it in an unspecified state.
\<close>

datatype out_cell = Untouched | Written int | Unspecified

text \<open>
  \<open>ParseGlVersion\<close>. \<open>absl::SimpleAtoi\<close> is a library function; it is the parameter
  \<open>atoi\<close>, \<open>None\<close> being its \<open>false\<close> return.
\<close>

definition second_pos :: "nat option \<Rightarrow> nat option \<Rightarrow> nat option" where
  "second_pos pos pos2 =
     (case pos of
        None \<Rightarrow> pos2
      | Some p \<Rightarrow> (case pos2 of None \<Rightarrow> Some p
                   | Some p2 \<Rightarrow> if p2 < p then Some p2 else Some p))"

definition ParseGlVersion :: "(string \<Rightarrow> int option) \<Rightarrow> string \<Rightarrow> bool \<times> out_cell \<times> out_cell" where
  "ParseGlVersion atoi version_string =
     (case sv_find version_string (CHR ''.'') of
        None \<Rightarrow> (False, Untouched, Untouched)
      | Some pos \<Rightarrow>
          if pos < 1 then (False, Untouched, Untouched)
          else
            let start = walk_back version_string (pos - 1) in
            (case atoi (sv_substr version_string start (Some (pos - start))) of
               None \<Rightarrow> (False, Unspecified, Untouched)
             | Some major \<Rightarrow>
                 let rest = sv_substr version_string (pos + 1) None;
                     pos' = second_pos (sv_find rest (CHR '' '')) (sv_find rest (CHR ''.''))
                 in (case atoi (sv_substr rest 0 pos') of
                       None \<Rightarrow> (False, Written major, Unspecified)
                     | Some minor \<Rightarrow> (True, Written major, Written minor))))"

subsection \<open>\<open>absl::SimpleAtoi\<close> for a 32-bit \<open>int\<close>\<close>

text \<open>
  The library's contract: the string, optionally preceded or followed by ASCII
  whitespace, must be a base-10 integer, optionally preceded by \<open>+\<close> or \<open>-\<close>, whose
  value is in the range of the integer type.
\<close>

definition ascii_isspace :: "char \<Rightarrow> bool" where
  "ascii_isspace c = ((of_char c :: nat) = 32 \<or> (9 \<le> (of_char c :: nat) \<and> (of_char c :: nat) \<le> 13))"

definition strip_ws :: "string \<Rightarrow> string" where
  "strip_ws s = rev (dropWhile ascii_isspace (rev (dropWhile ascii_isspace s)))"

primrec digits_value :: "int \<Rightarrow> string \<Rightarrow> int" where
  "digits_value acc [] = acc"
| "digits_value acc (c # cs) = digits_value (acc * 10 + (int (of_char c) - 48)) cs"

definition all_digits :: "string \<Rightarrow> bool" where
  "all_digits s = (s \<noteq> [] \<and> list_all isdigit s)"

definition in_int32 :: "int \<Rightarrow> bool" where
  "in_int32 v = (- 2147483648 \<le> v \<and> v \<le> 2147483647)"

definition SimpleAtoi :: "string \<Rightarrow> int option" where
  "SimpleAtoi s =
     (case strip_ws s of
        [] \<Rightarrow> None
      | c # cs \<Rightarrow>
          let negative = (c = CHR ''-'');
              ds = (if negative \<or> c = CHR ''+'' then cs else c # cs);
              v = (if negative then - digits_value 0 ds else digits_value 0 ds)
          in if all_digits ds \<and> in_int32 v then Some v else None)"

subsection \<open>The parse as the specification words it\<close>

definition before_dot :: "string \<Rightarrow> string" where
  "before_dot s = takeWhile (\<lambda>c. c \<noteq> CHR ''.'') s"

definition after_dot :: "string \<Rightarrow> string" where
  "after_dot s = tl (dropWhile (\<lambda>c. c \<noteq> CHR ''.'') s)"

text \<open>The maximal run of digits that ends a string.\<close>

definition digit_run :: "string \<Rightarrow> string" where
  "digit_run s = rev (takeWhile isdigit (rev s))"

text \<open>The characters up to the first space or \<open>.\<close>, or all of them.\<close>

definition minor_part :: "string \<Rightarrow> string" where
  "minor_part s = takeWhile (\<lambda>c. c \<noteq> CHR '' '' \<and> c \<noteq> CHR ''.'') s"

text \<open>
  The return value as claimed: \<open>false\<close> without a \<open>.\<close> or with the first \<open>.\<close> at index
  0, otherwise \<open>true\<close> exactly when the maximal run of digits before the first \<open>.\<close>
  and the minor part both parse.
\<close>

definition ParseGlVersion_claimed :: "(string \<Rightarrow> int option) \<Rightarrow> string \<Rightarrow> bool" where
  "ParseGlVersion_claimed atoi s =
     (if CHR ''.'' \<notin> set s \<or> before_dot s = [] then False
      else atoi (digit_run (before_dot s)) \<noteq> None \<and> atoi (minor_part (after_dot s)) \<noteq> None)"

text \<open>
  The major substring the code takes: the character just before the first \<open>.\<close>,
  whatever it is, preceded by the maximal run of digits that ends just before
  that character.
\<close>

definition major_part :: "string \<Rightarrow> string" where
  "major_part pre = digit_run (butlast pre) @ [last pre]"

definition ParseGlVersion_amended :: "(string \<Rightarrow> int option) \<Rightarrow> string \<Rightarrow> bool \<times> out_cell \<times> out_cell" where
  "ParseGlVersion_amended atoi s =
     (if CHR ''.'' \<notin> set s \<or> before_dot s = [] then (False, Untouched, Untouched)
      else case atoi (major_part (before_dot s)) of
             None \<Rightarrow> (False, Unspecified, Untouched)
           | Some major \<Rightarrow>
               (case atoi (minor_part (after_dot s)) of
                  None \<Rightarrow> (False, Written major, Unspecified)
                | Some minor \<Rightarrow> (True, Written major, Written minor)))"

section \<open>Context initialisation (\<open>GlContext::FinishInitialization\<close>)\<close>

datatype status = OkStatus | ErrorStatus string

text \<open>The log lines of the file, by the statement that writes them.\<close>

datatype log_entry =
    IgnoringUncheckedGlError
  | InvalidGlVersionFormat string
  | MajorVersionMismatch int int
  | GlVersionInfo int int string
  | GlGetStringiNotDefined
  | ErrorQueryingExtensions


record gl_context_info =
  gl_major_version :: int
  gl_minor_version :: int
  gl_extensions :: "string set"
  log :: "log_entry list"

definition LOG :: "log_entry \<Rightarrow> gl_context_info \<Rightarrow> gl_context_info" where
  "LOG e ctx = ctx\<lparr>log := log ctx @ [e]\<rparr>"

definition LogUncheckedGlErrors :: "bool \<Rightarrow> gl_context_info \<Rightarrow> gl_context_info" where
  "LogUncheckedGlErrors had_gl_errors ctx =
     (if had_gl_errors then LOG IgnoringUncheckedGlError ctx else ctx)"









text \<open>
  How the platform answers the binding calls around the job: \<open>EnterContext\<close> and
  \<open>ExitContext\<close>, and whether the job left GL errors unchecked.
\<close>

record gl_platform =
  enter_context :: status
  exit_context :: status
  unchecked_gl_errors :: bool

text \<open>
  \<open>MP_RETURN_IF_ERROR(...) << suffix\<close>: the error returned carries the suffix at
  the end of its message.
\<close>

fun append_message :: "status \<Rightarrow> string \<Rightarrow> status" where
  "append_message OkStatus suffix = OkStatus"
| "append_message (ErrorStatus message) suffix = ErrorStatus (message @ suffix)"



section \<open>The finish counter and the sync points\<close>

type_synonym int64 = "64 word"

type_synonym GLsync = nat

text \<open>
  The part of a \<open>GlContext\<close> that the finish counting uses: the two counters, whether
  the context has a dedicated thread, the finish tasks waiting in that thread's
  queue (each by the \<open>count_to_pass\<close> it captured), and, as a history variable,
  the number of \<open>glFinish\<close> calls issued for the context.
\<close>

record gl_context =
  gl_finish_count :: int64
  gl_finish_count_target :: int64
  thread_present :: bool
  finish_jobs :: "int64 list"
  glFinish_calls :: nat

definition GlFinishCalled :: "gl_context \<Rightarrow> gl_context" where
  "GlFinishCalled ctx = ctx\<lparr>gl_finish_count := gl_finish_count ctx + 1\<rparr>"

definition glFinish :: "gl_context \<Rightarrow> gl_context" where
  "glFinish ctx = ctx\<lparr>glFinish_calls := Suc (glFinish_calls ctx)\<rparr>"

text \<open>
  The contexts by identity, and what the GPU answers when a fence is polled.
\<close>

record 'c gl_world =
  contexts :: "'c \<Rightarrow> gl_context"
  fence_signaled :: "GLsync \<Rightarrow> bool"

text \<open>
  The sync points that stand for one point of one context's command stream:
  \<open>GlFinishSyncPoint\<close> with the finish count it captured, \<open>GlFenceSyncPoint\<close> with
  its \<open>sync_\<close> (\<open>None\<close> is the null pointer).
\<close>

datatype 'c GlSyncPoint =
    GlFinishSyncPoint 'c int64
  | GlFenceSyncPoint 'c "GLsync option"

fun GetContext :: "'c GlSyncPoint \<Rightarrow> 'c" where
  "GetContext (GlFinishSyncPoint c n) = c"
| "GetContext (GlFenceSyncPoint c s) = c"

text \<open>\<open>IsReady\<close>: the answer, and the token as the call leaves it.\<close>

fun IsReady :: "'c gl_world \<Rightarrow> 'c GlSyncPoint \<Rightarrow> bool \<times> 'c GlSyncPoint" where
  "IsReady w (GlFinishSyncPoint c n) =
     (n <s gl_finish_count (contexts w c), GlFinishSyncPoint c n)"
| "IsReady w (GlFenceSyncPoint c None) = (True, GlFenceSyncPoint c None)"
| "IsReady w (GlFenceSyncPoint c (Some sync)) =
     (if fence_signaled w sync then (True, GlFenceSyncPoint c None)
      else (False, GlFenceSyncPoint c (Some sync)))"





subsection \<open>\<open>GlMultiSyncPoint\<close>\<close>

text \<open>
  \<open>syncs_\<close> is the list of the tokens held. \<open>Add\<close>: the loop replaces the first token
  of the same context and returns; when the loop finds none, the token is
  appended.
\<close>

primrec Add :: "'c GlSyncPoint list \<Rightarrow> 'c GlSyncPoint \<Rightarrow> 'c GlSyncPoint list" where
  "Add [] new_sync = [new_sync]"
| "Add (sync # syncs) new_sync =
     (if GetContext sync = GetContext new_sync then new_sync # syncs
      else sync # Add syncs new_sync)"

text \<open>
  \<open>GlMultiSyncPoint::IsReady\<close>: \<open>remove_if\<close> polls every token once, in order, and
  the tokens that are not ready stay as the poll left them.
\<close>

fun prune_ready :: "'c gl_world \<Rightarrow> 'c GlSyncPoint list \<Rightarrow> 'c GlSyncPoint list" where
  "prune_ready w [] = []"
| "prune_ready w (sync # syncs) =
     (case IsReady w sync of
        (True, _) \<Rightarrow> prune_ready w syncs
      | (False, sync') \<Rightarrow> sync' # prune_ready w syncs)"

definition Multi_IsReady :: "'c gl_world \<Rightarrow> 'c GlSyncPoint list \<Rightarrow> bool \<times> 'c GlSyncPoint list" where
  "Multi_IsReady w syncs = (prune_ready w syncs = [], prune_ready w syncs)"

text \<open>\<open>GlMultiSyncPoint::Wait\<close> returns with \<open>syncs_\<close> cleared.\<close>

definition Multi_Wait :: "'c GlSyncPoint list \<Rightarrow> 'c GlSyncPoint list" where
  "Multi_Wait syncs = []"


text \<open>What a holder can do with a \<open>GlMultiSyncPoint\<close>.\<close>

datatype 'c multi_op =
    OpAdd "'c GlSyncPoint"
  | OpIsReady "'c gl_world"
  | OpWait
  | OpWaitOnGpu

fun multi_step :: "'c GlSyncPoint list \<Rightarrow> 'c multi_op \<Rightarrow> 'c GlSyncPoint list" where
  "multi_step syncs (OpAdd new_sync) = Add syncs new_sync"
| "multi_step syncs (OpIsReady w) = snd (Multi_IsReady w syncs)"
| "multi_step syncs OpWait = Multi_Wait syncs"
| "multi_step syncs OpWaitOnGpu = syncs"

section \<open>Waiting for a finish (\<open>GlContext::WaitForGlFinishCountPast\<close>)\<close>

text \<open>\<open>assign_larger_value\<close>: the variable ends as the greater of the two.\<close>

definition assign_larger_value :: "int64 \<Rightarrow> int64 \<Rightarrow> int64" where
  "assign_larger_value var target = (if var <s target then target else var)"

text \<open>The lambda \<open>finish_task\<close>, with the \<open>count_to_pass\<close> it captured.\<close>

definition finish_task :: "int64 \<Rightarrow> gl_context \<Rightarrow> gl_context" where
  "finish_task count_to_pass ctx =
     (if gl_finish_count ctx = count_to_pass then GlFinishCalled (glFinish ctx) else ctx)"

text \<open>
  \<open>GlContext::RunWithoutWaiting\<close> for a finish task: with a dedicated thread the
  task is put at the back of the queue; without one it runs at once inside
  \<open>SwitchContextAndRun\<close>, provided the context can be entered (\<open>enter_ok\<close>).
\<close>

definition RunWithoutWaiting_finish_task :: "bool \<Rightarrow> int64 \<Rightarrow> gl_context \<Rightarrow> gl_context" where
  "RunWithoutWaiting_finish_task enter_ok count_to_pass ctx =
     (if thread_present ctx then ctx\<lparr>finish_jobs := finish_jobs ctx @ [count_to_pass]\<rparr>
      else if enter_ok then finish_task count_to_pass ctx
      else ctx)"

text \<open>
  \<open>WaitForGlFinishCountPast(count_to_pass)\<close> up to the point where the caller has
  either returned or stands in the wait loop; \<open>is_current\<close> is \<open>IsCurrent()\<close>. The
  condition variables and \<open>context_waiting_on_\<close> decide when a waiter wakes up,
  not which \<open>glFinish\<close> calls are issued; they are left out here.
\<close>

datatype wait_outcome = Returned | Waiting

definition WaitForGlFinishCountPast ::
  "bool \<Rightarrow> bool \<Rightarrow> int64 \<Rightarrow> gl_context \<Rightarrow> wait_outcome \<times> gl_context" where
  "WaitForGlFinishCountPast is_current enter_ok count_to_pass ctx =
     (if count_to_pass <s gl_finish_count ctx then (Returned, ctx)
      else
        let ctx1 = ctx\<lparr>gl_finish_count_target :=
                         assign_larger_value (gl_finish_count_target ctx) (count_to_pass + 1)\<rparr>
        in if is_current then (Returned, finish_task count_to_pass ctx1)
           else
             let ctx2 = RunWithoutWaiting_finish_task enter_ok count_to_pass ctx1
             in if gl_finish_count ctx2 \<le>s count_to_pass then (Waiting, ctx2)
                else (Returned, ctx2))"

text \<open>The dedicated thread takes the job at the front of its queue and runs it.\<close>

definition run_front_job :: "gl_context \<Rightarrow> gl_context" where
  "run_front_job ctx =
     (case finish_jobs ctx of
        [] \<Rightarrow> ctx
      | count_to_pass # rest \<Rightarrow> finish_task count_to_pass (ctx\<lparr>finish_jobs := rest\<rparr>))"

text \<open>
  The flush inside the wait loop: the thread of this context, itself waiting for
  another context, finds this one behind its target and finishes it.
\<close>

definition cooperative_flush :: "gl_context \<Rightarrow> gl_context" where
  "cooperative_flush ctx =
     (if gl_finish_count ctx <s gl_finish_count_target ctx then GlFinishCalled (glFinish ctx)
      else ctx)"

text \<open>
  The events on one context that can issue a \<open>glFinish\<close> for it: a thread calls
  \<open>WaitForGlFinishCountPast\<close>, the dedicated thread runs its next job, the thread of
  the context flushes while it waits elsewhere.
\<close>

datatype finish_event =
    CallWait bool bool int64
  | RunJob
  | CooperativeFlush

fun finish_step :: "gl_context \<Rightarrow> finish_event \<Rightarrow> gl_context" where
  "finish_step ctx (CallWait is_current enter_ok count_to_pass) =
     snd (WaitForGlFinishCountPast is_current enter_ok count_to_pass ctx)"
| "finish_step ctx RunJob = run_front_job ctx"
| "finish_step ctx CooperativeFlush = cooperative_flush ctx"

fun waits_for :: "int64 \<Rightarrow> finish_event \<Rightarrow> bool" where
  "waits_for c (CallWait is_current enter_ok count_to_pass) = (count_to_pass = c)"
| "waits_for c RunJob = True"
| "waits_for c CooperativeFlush = True"

fun is_cooperative :: "finish_event \<Rightarrow> bool" where
  "is_cooperative CooperativeFlush = True"
| "is_cooperative e = False"

section \<open>The dedicated thread (\<open>GlContext::DedicatedThread\<close>)\<close>

type_synonym thread_id = nat

text \<open>
  What a function given to \<open>Run\<close> or \<open>RunWithoutWaiting\<close> does when it is called: a
  sequence of observable effects and of calls, from inside the function, of
  \<open>Run\<close> and \<open>RunWithoutWaiting\<close> on the same dedicated thread. A \<open>GlStatusFunction\<close>
  is such a body with the status it returns.
\<close>

datatype act =
    Effect nat
  | CallRun "act list" status
  | CallRunWithoutWaiting "act list"

text \<open>
  A \<open>Job\<close> of the queue: the empty function that signals termination, a void
  function given to \<open>RunWithoutWaiting\<close>, or the lambda that \<open>Run\<close> builds around
  \<open>gl_func\<close>, which refers to the locals \<open>done\<close> and \<open>status\<close> of the calling thread.
\<close>

datatype Job =
    EmptyJob
  | VoidJob "act list"
  | RunLambda thread_id "act list" status

text \<open>How a function reached the thread: through the queue, or called in place.\<close>

datatype path = Queued | Inline

text \<open>
  The state: the queue \<open>jobs_\<close>, the identity of \<open>gl_thread_\<close>, whether its loop has
  ended, and the locals \<open>done\<close> and \<open>status\<close> of the \<open>Run\<close> call each thread is in
  (\<open>run_done\<close>, \<open>run_status\<close>).
  Three history variables record what an observer sees: the functions in the
  order they were submitted, the functions in the order their execution began,
  and the effects in the order they took place.
\<close>

record DedicatedThread =
  jobs :: "Job list"
  gl_thread :: thread_id
  terminated :: bool
  run_done :: "thread_id \<Rightarrow> bool"
  run_status :: "thread_id \<Rightarrow> status"
  submitted :: "(path \<times> act list) list"
  started :: "(path \<times> act list) list"
  effects :: "nat list"

definition PutJob :: "Job \<Rightarrow> DedicatedThread \<Rightarrow> DedicatedThread" where
  "PutJob job s = s\<lparr>jobs := jobs s @ [job]\<rparr>"

text \<open>\<open>GetJob\<close>: the front job, removed; on an empty queue the thread stays blocked.\<close>

definition GetJob :: "DedicatedThread \<Rightarrow> (Job \<times> DedicatedThread) option" where
  "GetJob s = (case jobs s of [] \<Rightarrow> None | job # rest \<Rightarrow> Some (job, s\<lparr>jobs := rest\<rparr>))"

definition note_submitted :: "path \<Rightarrow> act list \<Rightarrow> DedicatedThread \<Rightarrow> DedicatedThread" where
  "note_submitted p f s = s\<lparr>submitted := submitted s @ [(p, f)]\<rparr>"

definition note_started :: "path \<Rightarrow> act list \<Rightarrow> DedicatedThread \<Rightarrow> DedicatedThread" where
  "note_started p f s = s\<lparr>started := started s @ [(p, f)]\<rparr>"

text \<open>
  A function body running on the dedicated thread. There \<open>IsCurrentThread()\<close>
  holds, so a \<open>Run\<close> from inside calls its function in place, and a
  \<open>RunWithoutWaiting\<close> puts its function into the queue.
\<close>

fun exec :: "act list \<Rightarrow> DedicatedThread \<Rightarrow> DedicatedThread" where
  "exec [] s = s"
| "exec (Effect n # rest) s = exec rest (s\<lparr>effects := effects s @ [n]\<rparr>)"
| "exec (CallRun gl_func st # rest) s =
     exec rest (exec gl_func (note_started Inline gl_func (note_submitted Inline gl_func s)))"
| "exec (CallRunWithoutWaiting gl_func # rest) s =
     exec rest (PutJob (VoidJob gl_func) (note_submitted Queued gl_func s))"

text \<open>
  One turn of the loop of \<open>ThreadBody\<close>: take a job; the empty job ends the loop,
  any other is called.
\<close>

definition run_job :: "Job \<Rightarrow> DedicatedThread \<Rightarrow> DedicatedThread" where
  "run_job job s =
     (case job of
        EmptyJob \<Rightarrow> s\<lparr>terminated := True\<rparr>
      | VoidJob gl_func \<Rightarrow> exec gl_func (note_started Queued gl_func s)
      | RunLambda caller gl_func st \<Rightarrow>
          (let s1 = exec gl_func (note_started Queued gl_func s)
           in s1\<lparr>run_status := (run_status s1)(caller := st), run_done := (run_done s1)(caller := True)\<rparr>))"

definition worker_step :: "DedicatedThread \<Rightarrow> DedicatedThread" where
  "worker_step s =
     (if terminated s then s
      else case GetJob s of None \<Rightarrow> s | Some (job, s1) \<Rightarrow> run_job job s1)"

text \<open>The size of the work a queue holds, for the termination of the waits.\<close>

fun weight :: "act list \<Rightarrow> nat" where
  "weight [] = 0"
| "weight (Effect n # rest) = Suc (weight rest)"
| "weight (CallRun gl_func st # rest) = Suc (weight gl_func + weight rest)"
| "weight (CallRunWithoutWaiting gl_func # rest) = Suc (Suc (weight gl_func + weight rest))"

fun job_weight :: "Job \<Rightarrow> nat" where
  "job_weight EmptyJob = 1"
| "job_weight (VoidJob gl_func) = Suc (weight gl_func)"
| "job_weight (RunLambda caller gl_func st) = Suc (weight gl_func)"

definition queue_weight :: "DedicatedThread \<Rightarrow> nat" where
  "queue_weight s = sum_list (map job_weight (jobs s))"

section \<open>Switching contexts (\<open>GlContext::SwitchContext\<close>)\<close>

type_synonym context_id = nat

type_synonym native_handle = nat

text \<open>
  A \<open>ContextBinding\<close>: the context object, if any, and the native context.
\<close>

record ContextBinding =
  context_object :: "context_id option"
  native_context :: "native_handle option"

definition no_context :: ContextBinding where
  "no_context = \<lparr>context_object = None, native_context = None\<rparr>"

text \<open>
  What \<open>SwitchContext\<close> does, step by step, as a history variable: the calls of
  \<open>SetCurrentContextBinding\<close> with their outcome, the lock operations on
  \<open>context_use_mutex_\<close>, and the writes of the thread's \<open>CurrentContext()\<close>.
\<close>

datatype switch_event =
    SetBinding ContextBinding status
  | Unlock context_id
  | ResetCurrent
  | Lock context_id
  | SetCurrent context_id

text \<open>
  The state a switch works on: the calling thread's \<open>CurrentContext()\<close>, the native
  context current on it, and for every context object the thread that holds its
  \<open>context_use_mutex_\<close>.
\<close>

record switch_state =
  CurrentContext :: "context_id option"
  native_current :: "native_handle option"
  context_use_mutex :: "context_id \<Rightarrow> thread_id option"
  switch_trace :: "switch_event list"

text \<open>
  \<open>SetCurrentContextBinding\<close> belongs to the platform: given the binding asked for
  and the native context current now, it answers with a status and the native
  context current afterwards. It is the parameter \<open>platform\<close> of the model.
\<close>

type_synonym platform_binding = "ContextBinding \<Rightarrow> native_handle option \<Rightarrow> status \<times> native_handle option"

definition SetCurrentContextBinding ::
  "platform_binding \<Rightarrow> ContextBinding \<Rightarrow> switch_state \<Rightarrow> status \<times> switch_state" where
  "SetCurrentContextBinding platform binding s =
     (case platform binding (native_current s) of
        (st, native') \<Rightarrow>
          (st, s\<lparr>native_current := native', switch_trace := switch_trace s @ [SetBinding binding st]\<rparr>))"

definition mutex_Unlock :: "context_id \<Rightarrow> switch_state \<Rightarrow> switch_state" where
  "mutex_Unlock c s =
     s\<lparr>context_use_mutex := (context_use_mutex s)(c := None),
       switch_trace := switch_trace s @ [Unlock c]\<rparr>"

text \<open>\<open>Lock\<close> returns once the mutex is free; \<open>None\<close>: the thread stays blocked on it.\<close>

definition mutex_Lock :: "thread_id \<Rightarrow> context_id \<Rightarrow> switch_state \<Rightarrow> switch_state option" where
  "mutex_Lock caller c s =
     (case context_use_mutex s c of
        Some holder \<Rightarrow> None
      | None \<Rightarrow> Some (s\<lparr>context_use_mutex := (context_use_mutex s)(c := Some caller),
                         switch_trace := switch_trace s @ [Lock c]\<rparr>))"

text \<open>
  \<open>SwitchContext(saved_context, new_context)\<close> on the thread \<open>caller\<close>;
  \<open>want_saved\<close> tells whether \<open>saved_context\<close> is non-null. The result is the status
  (\<open>None\<close> when the call stays blocked on the target's mutex), what was written to
  \<open>saved_context\<close>, and the state.
\<close>

definition SwitchContext ::
  "platform_binding \<Rightarrow> thread_id \<Rightarrow> bool \<Rightarrow> ContextBinding \<Rightarrow> switch_state \<Rightarrow>
     status option \<times> ContextBinding option \<times> switch_state" where
  "SwitchContext platform caller want_saved new_context s =
     (let old_context_obj = CurrentContext s;
          new_context_obj = context_object new_context;
          saved = (if want_saved
                   then Some \<lparr>context_object = old_context_obj, native_context = native_current s\<rparr>
                   else None)
      in if new_context_obj \<noteq> None \<and> old_context_obj = new_context_obj
         then (Some OkStatus, saved, s)
         else
           (case (case old_context_obj of
                    None \<Rightarrow> (OkStatus, s)
                  | Some old \<Rightarrow>
                      (case SetCurrentContextBinding platform no_context s of
                         (st, s1) \<Rightarrow>
                           if st \<noteq> OkStatus then (st, s1)
                           else (OkStatus,
                                 (mutex_Unlock old s1)
                                   \<lparr>CurrentContext := None,
                                    switch_trace := switch_trace (mutex_Unlock old s1) @ [ResetCurrent]\<rparr>)))
            of (st, s2) \<Rightarrow>
              if st \<noteq> OkStatus then (Some st, saved, s2)
              else
                (case new_context_obj of
                   Some new \<Rightarrow>
                     (case mutex_Lock caller new s2 of
                        None \<Rightarrow> (None, saved, s2)
                      | Some s3 \<Rightarrow>
                          (case SetCurrentContextBinding platform new_context s3 of
                             (status, s4) \<Rightarrow>
                               if status = OkStatus
                               then (Some status, saved,
                                     s4\<lparr>CurrentContext := Some new,
                                        switch_trace := switch_trace s4 @ [SetCurrent new]\<rparr>)
                               else (Some status, saved, mutex_Unlock new s4)))
                 | None \<Rightarrow>
                     (case SetCurrentContextBinding platform new_context s2 of
                        (status, s3) \<Rightarrow> (Some status, saved, s3)))))"

text \<open>
  \<open>EnterContext\<close> and \<open>ExitContext\<close>; \<open>this_context\<close> is \<open>ThisContextBinding()\<close>.
\<close>

definition EnterContext ::
  "platform_binding \<Rightarrow> thread_id \<Rightarrow> bool \<Rightarrow> ContextBinding \<Rightarrow> switch_state \<Rightarrow>
     status option \<times> ContextBinding option \<times> switch_state" where
  "EnterContext platform caller want_saved this_context s =
     SwitchContext platform caller want_saved this_context s"

definition ExitContext ::
  "platform_binding \<Rightarrow> thread_id \<Rightarrow> ContextBinding option \<Rightarrow> switch_state \<Rightarrow>
     status option \<times> ContextBinding option \<times> switch_state" where
  "ExitContext platform caller saved_context s =
     SwitchContext platform caller False
       (case saved_context of None \<Rightarrow> no_context | Some saved \<Rightarrow> saved) s"

text \<open>
  The switch as claimed, for a target context object \<open>new\<close> other than the current
  one: the steps are the unbinding and the release of the old context (when there
  is one), then the lock of the target and the attempt to bind it; and when that
  attempt fails, the target's mutex is free again, the error is returned and the
  thread has no current context.
\<close>

definition release_steps :: "context_id option \<Rightarrow> switch_event list" where
  "release_steps old_context_obj =
     (case old_context_obj of
        None \<Rightarrow> []
      | Some old \<Rightarrow> [SetBinding no_context OkStatus, Unlock old, ResetCurrent])"

definition switch_as_claimed ::
  "platform_binding \<Rightarrow> thread_id \<Rightarrow> bool \<Rightarrow> ContextBinding \<Rightarrow> context_id \<Rightarrow> switch_state \<Rightarrow> bool" where
  "switch_as_claimed platform caller want_saved new_context new s =
     (case SwitchContext platform caller want_saved new_context s of
        (result, saved, s') \<Rightarrow>
          (\<exists>status.
             result = Some status \<and>
             take (length (release_steps (CurrentContext s)) + 2)
                  (drop (length (switch_trace s)) (switch_trace s')) =
               release_steps (CurrentContext s) @ [Lock new, SetBinding new_context status] \<and>
             (status \<noteq> OkStatus \<longrightarrow>
                context_use_mutex s' new = None \<and> CurrentContext s' = None)))"

section \<open>\<open>ParseGlVersion\<close> against the specification\<close>

lemma sv_find_None: "sv_find s c = None \<longleftrightarrow> c \<notin> set s"
  by (induction s) auto

lemma sv_find_Some:
  "sv_find s c = Some p \<Longrightarrow>
     p < length s \<and> take p s = takeWhile (\<lambda>x. x \<noteq> c) s \<and>
     drop (Suc p) s = tl (dropWhile (\<lambda>x. x \<noteq> c) s)"
  by (induction s arbitrary: p) (auto split: if_splits)

lemma walk_back_le: "walk_back s n \<le> n"
  by (induction s n rule: walk_back.induct) (subst walk_back.simps, auto)

lemma walk_back_run:
  "n \<le> length s \<Longrightarrow> drop (walk_back s n) (take n s) = digit_run (take n s)"
proof (induction s n rule: walk_back.induct)
  case (1 s start)
  show ?case
  proof (cases "start > 0 \<and> isdigit (s ! (start - 1))")
    case True
    then obtain m where m: "start = Suc m" by (cases start) auto
    with True 1 have ih: "drop (walk_back s m) (take m s) = digit_run (take m s)"
      and dig: "isdigit (s ! m)" and len: "m < length s"
      by auto
    have w: "walk_back s start = walk_back s m"
      using True m by (subst walk_back.simps) simp
    have t: "take start s = take m s @ [s ! m]"
      using m len by (simp add: take_Suc_conv_app_nth)
    have "walk_back s m \<le> length (take m s)"
      using walk_back_le [of s m] len by simp
    then show ?thesis
      using ih dig by (simp add: w t digit_run_def)
  next
    case False
    then have w: "walk_back s start = start"
      by (subst walk_back.simps) auto
    show ?thesis
    proof (cases start)
      case 0
      then show ?thesis using w by (simp add: digit_run_def)
    next
      case (Suc m)
      with False 1 have "\<not> isdigit (s ! m)" and "m < length s" by auto
      then show ?thesis
        using w Suc "1.prems" by (simp add: take_Suc_conv_app_nth digit_run_def)
    qed
  qed
qed

lemma major_substr:
  assumes "sv_find s (CHR ''.'') = Some pos" and "\<not> pos < 1"
  shows "sv_substr s (walk_back s (pos - 1)) (Some (pos - walk_back s (pos - 1)))
         = major_part (before_dot s)"
proof -
  obtain m where m: "pos = Suc m" using assms(2) by (cases pos) auto
  have len: "pos < length s" and pre: "take pos s = before_dot s"
    using sv_find_Some [OF assms(1)] by (simp_all add: before_dot_def)
  have t: "take pos s = take m s @ [s ! m]"
    using m len by (simp add: take_Suc_conv_app_nth)
  have wl: "walk_back s m \<le> m" by (rule walk_back_le)
  have "sv_substr s (walk_back s m) (Some (pos - walk_back s m))
        = drop (walk_back s m) (take pos s)"
    using wl m by (simp add: sv_substr_def drop_take)
  also have "\<dots> = drop (walk_back s m) (take m s) @ [s ! m]"
    unfolding t using wl len m by simp
  also have "\<dots> = digit_run (take m s) @ [s ! m]"
    using walk_back_run [of m s] len m by simp
  also have "\<dots> = major_part (take pos s)"
    by (simp add: t major_part_def)
  finally show ?thesis using m pre by simp
qed

lemma takeWhile_two:
  "takeWhile (\<lambda>c. c \<noteq> a \<and> c \<noteq> b) s =
     (if length (takeWhile (\<lambda>c. c \<noteq> b) s) < length (takeWhile (\<lambda>c. c \<noteq> a) s)
      then takeWhile (\<lambda>c. c \<noteq> b) s else takeWhile (\<lambda>c. c \<noteq> a) s)"
  by (induction s) auto

lemma sv_find_takeWhile:
  "takeWhile (\<lambda>x. x \<noteq> c) s = (case sv_find s c of None \<Rightarrow> s | Some p \<Rightarrow> take p s)"
  by (induction s) (auto split: option.splits)

lemma sv_find_length_takeWhile:
  "length (takeWhile (\<lambda>x. x \<noteq> c) s) = (case sv_find s c of None \<Rightarrow> length s | Some p \<Rightarrow> p)"
  by (induction s) (auto split: option.splits)

lemma minor_substr:
  "sv_substr rest 0 (second_pos (sv_find rest (CHR '' '')) (sv_find rest (CHR ''.'')))
     = minor_part rest"
proof -
  have b: "\<And>c p. sv_find rest c = Some p \<Longrightarrow> p < length rest"
    using sv_find_Some by metis
  show ?thesis
    unfolding minor_part_def takeWhile_two [of "CHR '' ''" "CHR ''.''" rest] sv_find_takeWhile sv_find_length_takeWhile
    by (cases "sv_find rest (CHR '' '')"; cases "sv_find rest (CHR ''.'')")
       (auto simp: second_pos_def sv_substr_def dest: b)
qed

lemma major_part_digit:
  "pre \<noteq> [] \<Longrightarrow> isdigit (last pre) \<Longrightarrow> major_part pre = digit_run pre"
  by (cases pre rule: rev_cases) (simp_all add: major_part_def digit_run_def)

text \<open>
  Claim C10, as amended. \<open>ParseGlVersion\<close> returns \<open>false\<close>, writing nothing, for a
  string with no \<open>.\<close> or with its first \<open>.\<close> at index 0. Otherwise the major version
  is parsed from the character just before the first \<open>.\<close> preceded by the maximal run
  of digits ending just before that character, and the minor version from the
  characters after the first \<open>.\<close> up to the first space or second \<open>.\<close> (or the end);
  it returns \<open>true\<close> exactly when both parse. On a \<open>false\<close> return the outputs are not
  reliably set: the major one may be untouched, unspecified or already written, the
  minor one untouched or unspecified.
\<close>

theorem ParseGlVersion_refines_amended: "ParseGlVersion atoi s = ParseGlVersion_amended atoi s"
proof (cases "sv_find s (CHR ''.'')")
  case None
  then have "CHR ''.'' \<notin> set s" by (simp add: sv_find_None)
  then show ?thesis
    using None by (simp add: ParseGlVersion_def ParseGlVersion_amended_def)
next
  case (Some pos)
  then have dot: "CHR ''.'' \<in> set s"
    using sv_find_None [of s "CHR ''.''"] by auto
  have pre: "take pos s = before_dot s" and post: "drop (Suc pos) s = after_dot s"
    and len: "pos < length s"
    using sv_find_Some [OF Some] by (simp_all add: before_dot_def after_dot_def)
  show ?thesis
  proof (cases "pos < 1")
    case True
    then have "before_dot s = []" using pre by simp
    then show ?thesis
      using Some True by (simp add: ParseGlVersion_def ParseGlVersion_amended_def)
  next
    case False
    then have ne: "before_dot s \<noteq> []" using pre len by (metis One_nat_def Suc_leI le_zero_eq less_one linorder_not_less list.size(3) length_take min.absorb2 less_imp_le)
    have rest: "sv_substr s (Suc pos) None = after_dot s"
      using post by (simp add: sv_substr_def)
    show ?thesis
      using Some False dot ne major_substr [OF Some False]
      by (simp add: ParseGlVersion_def ParseGlVersion_amended_def Let_def rest minor_substr
               split: option.splits)
  qed
qed

theorem ParseGlVersion_refines_amended_witness:
  "ParseGlVersion SimpleAtoi ''OpenGL ES 3.2 NVIDIA'' =
     ParseGlVersion_amended SimpleAtoi ''OpenGL ES 3.2 NVIDIA'' \<and>
   ParseGlVersion_amended SimpleAtoi ''OpenGL ES 3.2 NVIDIA'' = (True, Written 3, Written 2) \<and>
   ParseGlVersion_amended SimpleAtoi ''3.x'' = (False, Written 3, Unspecified)"
proof -
  have a: "ParseGlVersion_amended SimpleAtoi ''OpenGL ES 3.2 NVIDIA'' = (True, Written 3, Written 2)"
    by code_simp
  have b: "ParseGlVersion_amended SimpleAtoi ''3.x'' = (False, Written 3, Unspecified)"
    by code_simp
  show ?thesis
    using ParseGlVersion_refines_amended [of SimpleAtoi "''OpenGL ES 3.2 NVIDIA''"] a b
    by simp
qed

text \<open>
  Claim C10 as stated fails: in \<open>3 .0\<close> no digit stands immediately before the \<open>.\<close>, so
  the claimed major substring is empty and does not parse, while the code hands
  \<open>SimpleAtoi\<close> the substring \<open>3\<close> followed by the space, which parses as 3.
\<close>

theorem ParseGlVersion_claimed_counterexample:
  "ParseGlVersion SimpleAtoi ''3 .0'' = (True, Written 3, Written 0) \<and>
   \<not> ParseGlVersion_claimed SimpleAtoi ''3 .0''"
proof -
  have a: "ParseGlVersion SimpleAtoi ''3 .0'' = (True, Written 3, Written 0)"
    by code_simp
  have b: "\<not> ParseGlVersion_claimed SimpleAtoi ''3 .0''"
    by code_simp
  show ?thesis using a b by simp
qed

section \<open>Initialisation with an unparsable version string\<close>









lemma LogUncheckedGlErrors_version [simp]:
  "gl_major_version (LogUncheckedGlErrors b ctx) = gl_major_version ctx"
  "gl_minor_version (LogUncheckedGlErrors b ctx) = gl_minor_version ctx"
  by (simp_all add: LogUncheckedGlErrors_def LOG_def)



section \<open>Sync points: one token per context, and readiness\<close>

lemma sint_succ:
  "sint (x :: int64) < 2 ^ 63 - 1 \<Longrightarrow> sint (x + 1) = sint x + 1"
proof -
  assume a: "sint x < 2 ^ 63 - 1"
  have "- (2 ^ 63) \<le> sint x" using sint_ge [of x] by simp
  then show ?thesis
    using a by (simp add: sint_word_ariths signed_take_bit_int_eq_self)
qed


lemma Add_contexts:
  "set (map GetContext (Add syncs t)) = set (map GetContext syncs) \<union> {GetContext t}"
  by (induction syncs) auto

lemma Add_distinct:
  "distinct (map GetContext syncs) \<Longrightarrow> distinct (map GetContext (Add syncs t))"
proof (induction syncs)
  case Nil
  then show ?case by simp
next
  case (Cons a syncs)
  then show ?case
    using Add_contexts [of syncs t] by (auto simp: image_iff)
qed

lemma Add_replaces:
  "GetContext t \<in> set (map GetContext syncs) \<Longrightarrow>
     \<exists>i < length syncs. GetContext (syncs ! i) = GetContext t \<and>
        (\<forall>j < i. GetContext (syncs ! j) \<noteq> GetContext t) \<and> Add syncs t = syncs[i := t]"
proof (induction syncs)
  case Nil
  then show ?case by simp
next
  case (Cons a syncs)
  show ?case
  proof (cases "GetContext a = GetContext t")
    case True
    then have "GetContext ((a # syncs) ! 0) = GetContext t \<and>
        (\<forall>j < 0. GetContext ((a # syncs) ! j) \<noteq> GetContext t) \<and> Add (a # syncs) t = (a # syncs)[0 := t]"
      by simp
    then show ?thesis by blast
  next
    case False
    with Cons obtain i where i: "i < length syncs" "GetContext (syncs ! i) = GetContext t"
      "\<forall>j < i. GetContext (syncs ! j) \<noteq> GetContext t" "Add syncs t = syncs[i := t]"
      by auto
    have "\<forall>j < Suc i. GetContext ((a # syncs) ! j) \<noteq> GetContext t"
      using False i(3) by (auto simp: less_Suc_eq_0_disj)
    with i False have "Suc i < length (a # syncs) \<and> GetContext ((a # syncs) ! Suc i) = GetContext t \<and>
        (\<forall>j < Suc i. GetContext ((a # syncs) ! j) \<noteq> GetContext t) \<and>
        Add (a # syncs) t = (a # syncs)[Suc i := t]"
      by simp
    then show ?thesis by blast
  qed
qed

lemma Add_appends:
  "GetContext t \<notin> set (map GetContext syncs) \<Longrightarrow> Add syncs t = syncs @ [t]"
  by (induction syncs) auto

lemma foldl_Add_distinct:
  "distinct (map GetContext syncs) \<Longrightarrow> distinct (map GetContext (foldl Add syncs ts))"
  by (induction ts arbitrary: syncs) (auto simp: Add_distinct)


lemma IsReady_context [simp]: "GetContext (snd (IsReady w t)) = GetContext t"
  by (cases "(w, t)" rule: IsReady.cases) auto

lemma prune_ready_contexts:
  "set (map GetContext (prune_ready w syncs)) \<subseteq> set (map GetContext syncs)"
proof (induction syncs)
  case Nil
  then show ?case by simp
next
  case (Cons a syncs)
  have "GetContext (snd (IsReady w a)) = GetContext a" by simp
  with Cons show ?case
    by (cases "IsReady w a") (auto split: bool.splits)
qed

lemma prune_ready_distinct:
  "distinct (map GetContext syncs) \<Longrightarrow> distinct (map GetContext (prune_ready w syncs))"
proof (induction syncs)
  case Nil
  then show ?case by simp
next
  case (Cons a syncs)
  have c: "GetContext (snd (IsReady w a)) = GetContext a" by simp
  from Cons show ?case
    using prune_ready_contexts [of w syncs] c
    by (cases "IsReady w a") (auto split: bool.splits)
qed

lemma multi_step_distinct:
  "distinct (map GetContext syncs) \<Longrightarrow> distinct (map GetContext (multi_step syncs op))"
  by (cases op) (simp_all add: Add_distinct prune_ready_distinct Multi_IsReady_def Multi_Wait_def)

lemma foldl_multi_step_distinct:
  "distinct (map GetContext syncs) \<Longrightarrow> distinct (map GetContext (foldl multi_step syncs ops))"
  by (induction ops arbitrary: syncs) (simp_all add: multi_step_distinct)

text \<open>
  Claim C7. After any sequence of \<open>Add\<close> calls on an empty \<open>GlMultiSyncPoint\<close> (and
  after any sequence of its operations at all) no two tokens held have the same
  owning context. \<open>Add\<close> replaces, in place, the token held for the new token's
  context, and appends only when no token held has that context.
\<close>

theorem GlMultiSyncPoint_one_token_per_context:
  "distinct (map GetContext (foldl Add [] tokens)) \<and>
   distinct (map GetContext (foldl multi_step [] ops)) \<and>
   (if GetContext t \<in> set (map GetContext syncs)
    then \<exists>i < length syncs. GetContext (syncs ! i) = GetContext t \<and> Add syncs t = syncs[i := t]
    else Add syncs t = syncs @ [t])"
proof (intro conjI)
  show "distinct (map GetContext (foldl Add [] tokens))"
    by (rule foldl_Add_distinct) simp
  show "distinct (map GetContext (foldl multi_step [] ops))"
    by (rule foldl_multi_step_distinct) simp
  show "if GetContext t \<in> set (map GetContext syncs)
    then \<exists>i < length syncs. GetContext (syncs ! i) = GetContext t \<and> Add syncs t = syncs[i := t]
    else Add syncs t = syncs @ [t]"
    using Add_replaces [of t syncs] Add_appends [of t syncs] by (auto simp del: set_map)
qed

theorem GlMultiSyncPoint_one_token_per_context_witness:
  "distinct (map GetContext
     (foldl Add [] [GlFinishSyncPoint (1::nat) 0, GlFenceSyncPoint 2 (Some 7), GlFinishSyncPoint 1 5])) \<and>
   foldl Add [] [GlFinishSyncPoint (1::nat) 0, GlFenceSyncPoint 2 (Some 7), GlFinishSyncPoint 1 5]
     = [GlFinishSyncPoint 1 5, GlFenceSyncPoint 2 (Some 7)]"
  using GlMultiSyncPoint_one_token_per_context
          [of "[GlFinishSyncPoint (1::nat) 0, GlFenceSyncPoint 2 (Some 7), GlFinishSyncPoint 1 5]"]
  by simp














text \<open>
  Why the hypothesis on the counter: at the largest 64-bit value the increment
  wraps, and a token that was ready is not any more.
\<close>

lemma IsReady_after_wrap:
  "fst (IsReady \<lparr>contexts = (\<lambda>c. \<lparr>gl_finish_count = 0x7FFFFFFFFFFFFFFF, gl_finish_count_target = 0,
                      thread_present = True, finish_jobs = [], glFinish_calls = 0\<rparr>),
                 fence_signaled = (\<lambda>sync. False)\<rparr> (GlFinishSyncPoint (0::nat) 3)) \<and>
   \<not> fst (IsReady \<lparr>contexts = (\<lambda>c. GlFinishCalled \<lparr>gl_finish_count = 0x7FFFFFFFFFFFFFFF,
                      gl_finish_count_target = 0, thread_present = True, finish_jobs = [],
                      glFinish_calls = 0\<rparr>),
                 fence_signaled = (\<lambda>sync. False)\<rparr> (GlFinishSyncPoint (0::nat) 3))"
  by (simp add: GlFinishCalled_def)

section \<open>Coalescing of finish requests\<close>

text \<open>
  The invariant of a run in which every waiter waits for the same count \<open>c\<close>: the
  queue holds finish tasks for \<open>c\<close> only, and either nothing was flushed or one
  flush moved the counter past \<open>c\<close>.
\<close>

definition coalesced :: "int64 \<Rightarrow> gl_context \<Rightarrow> gl_context \<Rightarrow> bool" where
  "coalesced c ctx0 ctx =
     (list_all (\<lambda>j. j = c) (finish_jobs ctx) \<and>
      ((glFinish_calls ctx = glFinish_calls ctx0 \<and> gl_finish_count ctx = gl_finish_count ctx0) \<or>
       (glFinish_calls ctx = Suc (glFinish_calls ctx0) \<and> gl_finish_count ctx = c + 1)))"

lemma finish_task_coalesced:
  "coalesced c ctx0 ctx \<Longrightarrow> coalesced c ctx0 (finish_task c ctx)"
  by (auto simp: coalesced_def finish_task_def GlFinishCalled_def glFinish_def)

lemma coalesced_target:
  "coalesced c ctx0 ctx \<Longrightarrow> coalesced c ctx0 (ctx\<lparr>gl_finish_count_target := t\<rparr>)"
  by (simp add: coalesced_def)

lemma coalesced_enqueue:
  "coalesced c ctx0 ctx \<Longrightarrow> coalesced c ctx0 (ctx\<lparr>finish_jobs := finish_jobs ctx @ [c]\<rparr>)"
  by (simp add: coalesced_def)

lemma coalesced_pop:
  "coalesced c ctx0 ctx \<Longrightarrow> finish_jobs ctx = j # rest \<Longrightarrow>
     j = c \<and> coalesced c ctx0 (ctx\<lparr>finish_jobs := rest\<rparr>)"
  by (simp add: coalesced_def)

lemma coalesced_RunWithoutWaiting:
  "coalesced c ctx0 ctx \<Longrightarrow> coalesced c ctx0 (RunWithoutWaiting_finish_task enter_ok c ctx)"
  by (simp add: RunWithoutWaiting_finish_task_def finish_task_coalesced coalesced_enqueue)

lemma finish_step_coalesced:
  assumes "coalesced c ctx0 ctx" and "waits_for c e" and "\<not> is_cooperative e"
  shows "coalesced c ctx0 (finish_step ctx e)"
proof (cases e)
  case (CallWait is_current enter_ok count_to_pass)
  with assms(2) have c: "count_to_pass = c" by simp
  let ?ctx1 = "ctx\<lparr>gl_finish_count_target :=
                    assign_larger_value (gl_finish_count_target ctx) (c + 1)\<rparr>"
  have 1: "coalesced c ctx0 ?ctx1"
    using assms(1) by (rule coalesced_target)
  have "finish_step ctx e \<in> {ctx, finish_task c ?ctx1, RunWithoutWaiting_finish_task enter_ok c ?ctx1}"
    unfolding CallWait c by (simp add: WaitForGlFinishCountPast_def Let_def)
  with assms(1) finish_task_coalesced [OF 1] coalesced_RunWithoutWaiting [OF 1]
  show ?thesis by auto
next
  case RunJob
  show ?thesis
  proof (cases "finish_jobs ctx")
    case Nil
    with assms(1) RunJob show ?thesis by (simp add: run_front_job_def)
  next
    case (Cons j rest)
    with coalesced_pop [OF assms(1) Cons] RunJob show ?thesis
      by (simp add: run_front_job_def finish_task_coalesced)
  qed
next
  case CooperativeFlush
  with assms(3) show ?thesis by simp
qed

lemma foldl_finish_step_coalesced:
  assumes "coalesced c ctx0 ctx" and "list_all (waits_for c) evs"
    and "list_all (\<lambda>e. \<not> is_cooperative e) evs"
  shows "coalesced c ctx0 (foldl finish_step ctx evs)"
  using assms by (induction evs arbitrary: ctx) (simp_all add: finish_step_coalesced)


text \<open>
  The same with the cooperative flush among the events, for a wait on a count the
  context has reached (as a token captures it) and a target at most one ahead.
\<close>

definition coalesced_all :: "int64 \<Rightarrow> gl_context \<Rightarrow> gl_context \<Rightarrow> bool" where
  "coalesced_all c ctx0 ctx =
     (list_all (\<lambda>j. j = c) (finish_jobs ctx) \<and>
      gl_finish_count_target ctx \<le>s gl_finish_count ctx0 + 1 \<and>
      ((glFinish_calls ctx = glFinish_calls ctx0 \<and> gl_finish_count ctx = gl_finish_count ctx0) \<or>
       (glFinish_calls ctx = Suc (glFinish_calls ctx0) \<and> gl_finish_count ctx = gl_finish_count ctx0 + 1)))"

lemma coalesced_all_finish_task:
  assumes "coalesced_all c ctx0 ctx" and "gl_finish_count ctx0 + 1 \<noteq> c"
  shows "coalesced_all c ctx0 (finish_task c ctx)"
  using assms
  by (auto simp: coalesced_all_def finish_task_def GlFinishCalled_def glFinish_def)

lemma coalesced_all_target:
  assumes "coalesced_all c ctx0 ctx" and "t \<le>s gl_finish_count ctx0 + 1"
  shows "coalesced_all c ctx0 (ctx\<lparr>gl_finish_count_target := t\<rparr>)"
  using assms by (simp add: coalesced_all_def)

lemma coalesced_all_enqueue:
  assumes "coalesced_all c ctx0 ctx"
  shows "coalesced_all c ctx0 (ctx\<lparr>finish_jobs := finish_jobs ctx @ [c]\<rparr>)"
  using assms by (simp add: coalesced_all_def)

lemma coalesced_all_RunWithoutWaiting:
  assumes "coalesced_all c ctx0 ctx" and "gl_finish_count ctx0 + 1 \<noteq> c"
  shows "coalesced_all c ctx0 (RunWithoutWaiting_finish_task enter_ok c ctx)"
  using assms
  by (simp add: RunWithoutWaiting_finish_task_def coalesced_all_finish_task coalesced_all_enqueue)

lemma finish_step_coalesced_all:
  assumes inv: "coalesced_all c ctx0 ctx" and w: "waits_for c e"
    and le: "c \<le>s gl_finish_count ctx0" and small: "sint (gl_finish_count ctx0) < 2 ^ 63 - 1"
  shows "coalesced_all c ctx0 (finish_step ctx e)"
proof -
  note s = sint_succ [OF small]
  have neq: "gl_finish_count ctx0 + 1 \<noteq> c"
    using le s by (auto simp: word_sle_eq)
  have tgt: "assign_larger_value (gl_finish_count_target ctx) (c + 1) \<le>s gl_finish_count ctx0 + 1"
  proof -
    have t: "gl_finish_count_target ctx \<le>s gl_finish_count ctx0 + 1"
      using inv by (simp add: coalesced_all_def)
    have "sint c < 2 ^ 63 - 1" using le small by (simp add: word_sle_eq)
    then have "sint (c + 1) = sint c + 1" by (rule sint_succ)
    with t le s show ?thesis
      by (simp add: assign_larger_value_def word_sle_eq)
  qed
  show ?thesis
  proof (cases e)
    case (CallWait is_current enter_ok count_to_pass)
    with w have c: "count_to_pass = c" by simp
    let ?ctx1 = "ctx\<lparr>gl_finish_count_target :=
                      assign_larger_value (gl_finish_count_target ctx) (c + 1)\<rparr>"
    have 1: "coalesced_all c ctx0 ?ctx1"
      using inv tgt by (rule coalesced_all_target)
    have 2: "coalesced_all c ctx0 (finish_task c ?ctx1)"
      using 1 neq by (rule coalesced_all_finish_task)
    have 3: "coalesced_all c ctx0 (RunWithoutWaiting_finish_task enter_ok c ?ctx1)"
      using 1 neq by (rule coalesced_all_RunWithoutWaiting)
    have "finish_step ctx e \<in> {ctx, finish_task c ?ctx1, RunWithoutWaiting_finish_task enter_ok c ?ctx1}"
      unfolding CallWait c by (simp add: WaitForGlFinishCountPast_def Let_def)
    with inv 2 3 show ?thesis by auto
  next
    case RunJob
    show ?thesis
    proof (cases "finish_jobs ctx")
      case Nil
      with inv RunJob show ?thesis by (simp add: run_front_job_def)
    next
      case (Cons j rest)
      with inv have j: "j = c" and r: "coalesced_all c ctx0 (ctx\<lparr>finish_jobs := rest\<rparr>)"
        by (simp_all add: coalesced_all_def)
      show ?thesis
        using coalesced_all_finish_task [OF r neq] RunJob Cons j by (simp add: run_front_job_def)
    qed
  next
    case CooperativeFlush
    with inv s show ?thesis
      by (auto simp: cooperative_flush_def coalesced_all_def GlFinishCalled_def glFinish_def
            word_sle_eq word_sless_alt)
  qed
qed

lemma foldl_finish_step_coalesced_all:
  assumes "coalesced_all c ctx0 ctx" and "list_all (waits_for c) evs"
    and "c \<le>s gl_finish_count ctx0" and "sint (gl_finish_count ctx0) < 2 ^ 63 - 1"
  shows "coalesced_all c ctx0 (foldl finish_step ctx evs)"
  using assms by (induction evs arbitrary: ctx) (simp_all add: finish_step_coalesced_all)


lemma finish_task_calls:
  "glFinish_calls (finish_task count_to_pass ctx) =
     (if gl_finish_count ctx = count_to_pass then Suc (glFinish_calls ctx) else glFinish_calls ctx)"
  by (simp add: finish_task_def GlFinishCalled_def glFinish_def)

text \<open>
  Claim C2. A call \<open>WaitForGlFinishCountPast(count_to_pass)\<close> on a context whose
  finish count already exceeds \<open>count_to_pass\<close> returns at once and changes nothing:
  no job, no flush. Otherwise, from a thread that is not current on a context with
  a dedicated thread, it puts one finish task at the back of the queue and does
  not flush itself; the task calls \<open>glFinish\<close> exactly when the finish count still
  equals the captured \<open>count_to_pass\<close>. Hence, whatever the order in which waiters
  with the same \<open>count_to_pass\<close> arrive and queued jobs run, at most one \<open>glFinish\<close>
  is issued.
\<close>

theorem WaitForGlFinishCountPast_coalesces:
  "(count_to_pass <s gl_finish_count ctx \<longrightarrow>
      WaitForGlFinishCountPast is_current enter_ok count_to_pass ctx = (Returned, ctx)) \<and>
   (\<not> count_to_pass <s gl_finish_count ctx \<and> \<not> is_current \<and> thread_present ctx \<longrightarrow>
      finish_jobs (snd (WaitForGlFinishCountPast is_current enter_ok count_to_pass ctx)) =
        finish_jobs ctx @ [count_to_pass] \<and>
      glFinish_calls (snd (WaitForGlFinishCountPast is_current enter_ok count_to_pass ctx)) =
        glFinish_calls ctx) \<and>
   glFinish_calls (finish_task count_to_pass ctx) =
     (if gl_finish_count ctx = count_to_pass then Suc (glFinish_calls ctx) else glFinish_calls ctx) \<and>
   (list_all (\<lambda>j. j = count_to_pass) (finish_jobs ctx) \<and> list_all (waits_for count_to_pass) evs \<and>
    list_all (\<lambda>e. \<not> is_cooperative e) evs \<longrightarrow>
      glFinish_calls (foldl finish_step ctx evs) \<le> Suc (glFinish_calls ctx))"
proof (intro conjI impI)
  show "WaitForGlFinishCountPast is_current enter_ok count_to_pass ctx = (Returned, ctx)"
    if "count_to_pass <s gl_finish_count ctx"
    using that by (simp add: WaitForGlFinishCountPast_def)
  show "finish_jobs (snd (WaitForGlFinishCountPast is_current enter_ok count_to_pass ctx)) =
        finish_jobs ctx @ [count_to_pass]"
    if "\<not> count_to_pass <s gl_finish_count ctx \<and> \<not> is_current \<and> thread_present ctx"
    using that
    by (simp add: WaitForGlFinishCountPast_def Let_def RunWithoutWaiting_finish_task_def)
  show "glFinish_calls (snd (WaitForGlFinishCountPast is_current enter_ok count_to_pass ctx)) =
        glFinish_calls ctx"
    if "\<not> count_to_pass <s gl_finish_count ctx \<and> \<not> is_current \<and> thread_present ctx"
    using that
    by (simp add: WaitForGlFinishCountPast_def Let_def RunWithoutWaiting_finish_task_def)
  show "glFinish_calls (finish_task count_to_pass ctx) =
     (if gl_finish_count ctx = count_to_pass then Suc (glFinish_calls ctx) else glFinish_calls ctx)"
    by (rule finish_task_calls)
  show "glFinish_calls (foldl finish_step ctx evs) \<le> Suc (glFinish_calls ctx)"
    if h: "list_all (\<lambda>j. j = count_to_pass) (finish_jobs ctx) \<and> list_all (waits_for count_to_pass) evs \<and>
        list_all (\<lambda>e. \<not> is_cooperative e) evs"
  proof -
    have "coalesced count_to_pass ctx ctx"
      using h by (simp add: coalesced_def)
    then have "coalesced count_to_pass ctx (foldl finish_step ctx evs)"
      using h by (simp add: foldl_finish_step_coalesced)
    then show ?thesis by (auto simp: coalesced_def)
  qed
qed

definition example_gl_context :: gl_context where
  "example_gl_context =
     \<lparr>gl_finish_count = 3, gl_finish_count_target = 3, thread_present = True, finish_jobs = [],
      glFinish_calls = 0\<rparr>"

definition example_waits :: "finish_event list" where
  "example_waits = [CallWait False True 3, CallWait False True 3, RunJob, RunJob, CallWait False True 3]"

theorem WaitForGlFinishCountPast_coalesces_witness:
  "2 <s gl_finish_count example_gl_context \<and>
   WaitForGlFinishCountPast False True 2 example_gl_context = (Returned, example_gl_context) \<and>
   \<not> 3 <s gl_finish_count example_gl_context \<and> thread_present example_gl_context \<and>
   finish_jobs (snd (WaitForGlFinishCountPast False True 3 example_gl_context)) = [3] \<and>
   glFinish_calls (snd (WaitForGlFinishCountPast False True 3 example_gl_context)) = 0 \<and>
   list_all (\<lambda>j. j = 3) (finish_jobs example_gl_context) \<and>
   list_all (waits_for 3) example_waits \<and>
   list_all (\<lambda>e. \<not> is_cooperative e) example_waits \<and>
   glFinish_calls (foldl finish_step example_gl_context example_waits) \<le> Suc (glFinish_calls example_gl_context) \<and>
   glFinish_calls (foldl finish_step example_gl_context example_waits) = 1 \<and>
   finish_jobs (foldl finish_step example_gl_context example_waits) = []"
proof -
  have p: "2 <s gl_finish_count example_gl_context"
    by (simp add: example_gl_context_def)
  have q: "\<not> 3 <s gl_finish_count example_gl_context \<and> \<not> False \<and> thread_present example_gl_context"
    by (simp add: example_gl_context_def)
  have h: "list_all (\<lambda>j. j = 3) (finish_jobs example_gl_context) \<and>
      list_all (waits_for 3) example_waits \<and> list_all (\<lambda>e. \<not> is_cooperative e) example_waits"
    by (simp add: example_gl_context_def example_waits_def)
  have e: "finish_jobs example_gl_context = []" "glFinish_calls example_gl_context = 0"
    by (simp_all add: example_gl_context_def)
  have a: "WaitForGlFinishCountPast False True 2 example_gl_context = (Returned, example_gl_context)"
    using WaitForGlFinishCountPast_coalesces [of 2 example_gl_context False True "[]"] p
    by blast
  have b: "finish_jobs (snd (WaitForGlFinishCountPast False True 3 example_gl_context)) = [3] \<and>
      glFinish_calls (snd (WaitForGlFinishCountPast False True 3 example_gl_context)) = 0"
    using WaitForGlFinishCountPast_coalesces [of 3 example_gl_context False True "[]",
            THEN conjunct2, THEN conjunct1, rule_format, OF q] e
    by simp
  have le: "glFinish_calls (foldl finish_step example_gl_context example_waits)
             \<le> Suc (glFinish_calls example_gl_context)"
    using WaitForGlFinishCountPast_coalesces [of 3 example_gl_context False True example_waits] h
    by blast
  have v: "foldl finish_step example_gl_context example_waits =
      \<lparr>gl_finish_count = 4, gl_finish_count_target = 4, thread_present = True, finish_jobs = [],
       glFinish_calls = 1\<rparr>"
    by (simp add: example_gl_context_def example_waits_def WaitForGlFinishCountPast_def Let_def
          RunWithoutWaiting_finish_task_def assign_larger_value_def run_front_job_def
          finish_task_def GlFinishCalled_def glFinish_def)
  show ?thesis using p q h a b le v by simp
qed

text \<open>
  The bound also holds with the cooperative flush of the wait loop among the
  events, for a \<open>count_to_pass\<close> that the context has reached.
\<close>

lemma coalescing_with_cooperative_flush:
  assumes "list_all (\<lambda>j. j = count_to_pass) (finish_jobs ctx)"
    and "list_all (waits_for count_to_pass) evs"
    and "count_to_pass \<le>s gl_finish_count ctx"
    and "gl_finish_count_target ctx \<le>s gl_finish_count ctx + 1"
    and "sint (gl_finish_count ctx) < 2 ^ 63 - 1"
  shows "glFinish_calls (foldl finish_step ctx evs) \<le> Suc (glFinish_calls ctx)"
proof -
  have "coalesced_all count_to_pass ctx ctx"
    using assms(1,4) by (simp add: coalesced_all_def)
  then have "coalesced_all count_to_pass ctx (foldl finish_step ctx evs)"
    using assms(2,3,5) by (rule foldl_finish_step_coalesced_all)
  then show ?thesis by (auto simp: coalesced_all_def)
qed

section \<open>Running jobs on the dedicated thread\<close>

subsection \<open>The queue only shrinks while a caller waits\<close>

lemma exec_queue_weight: "queue_weight (exec f s) \<le> queue_weight s + weight f"
proof (induction f s rule: exec.induct)
  case (1 s)
  then show ?case by simp
next
  case (2 n rest s)
  then show ?case by (simp add: queue_weight_def)
next
  case (3 gl_func st rest s)
  then show ?case by (simp add: queue_weight_def note_started_def note_submitted_def)
next
  case (4 gl_func rest s)
  then show ?case by (simp add: queue_weight_def note_submitted_def PutJob_def)
qed

lemma worker_step_weight:
  assumes "\<not> terminated s" and "jobs s \<noteq> []"
  shows "queue_weight (worker_step s) < queue_weight s"
proof -
  obtain job rest where j: "jobs s = job # rest" using assms(2) by (cases "jobs s") auto
  have e: "\<And>f p. queue_weight (exec f (note_started p f (s\<lparr>jobs := rest\<rparr>)))
              \<le> queue_weight (s\<lparr>jobs := rest\<rparr>) + weight f"
    using exec_queue_weight [of _ "note_started _ _ (s\<lparr>jobs := rest\<rparr>)"]
    by (simp add: queue_weight_def note_started_def)
  show ?thesis
  proof (cases job)
    case EmptyJob
    with j assms show ?thesis
      by (simp add: worker_step_def GetJob_def run_job_def queue_weight_def)
  next
    case (VoidJob f)
    with j assms e [of f Queued] show ?thesis
      by (simp add: worker_step_def GetJob_def run_job_def queue_weight_def)
  next
    case (RunLambda caller f st)
    with j assms e [of f Queued] show ?thesis
      by (simp add: worker_step_def GetJob_def run_job_def queue_weight_def Let_def)
  qed
qed

text \<open>
  The wait of \<open>Run\<close> in a calling thread, \<open>while (!done) gl_job_done_cv_.Wait(...)\<close>,
  seen with the dedicated thread that runs meanwhile: the thread takes job after
  job until the caller's \<open>done\<close> is set. The first component tells whether the
  wait ends; it does not when the loop of the thread has ended or the queue has
  run empty with \<open>done\<close> still unset.
\<close>

function await :: "thread_id \<Rightarrow> DedicatedThread \<Rightarrow> bool \<times> DedicatedThread" where
  "await caller s =
     (if run_done s caller then (True, s)
      else if terminated s \<or> jobs s = [] then (False, s)
      else await caller (worker_step s))"
  by pat_completeness auto
termination
  by (relation "measure (\<lambda>(caller, s). queue_weight s)") (auto simp: worker_step_weight)

declare await.simps [simp del]

text \<open>
  \<open>DedicatedThread::Run\<close>, called by the thread \<open>caller\<close> with a function of body
  \<open>gl_func\<close> that returns \<open>st\<close>: the status returned, or \<open>None\<close> when the call never
  returns, and the state then.
\<close>

definition Run :: "thread_id \<Rightarrow> act list \<Rightarrow> status \<Rightarrow> DedicatedThread \<Rightarrow> status option \<times> DedicatedThread" where
  "Run caller gl_func st s =
     (if caller = gl_thread s
      then (Some st, exec gl_func (note_started Inline gl_func (note_submitted Inline gl_func s)))
      else
        let s1 = PutJob (RunLambda caller gl_func st)
                   (note_submitted Queued gl_func (s\<lparr>run_done := (run_done s)(caller := False)\<rparr>))
        in case await caller s1 of
             (True, s2) \<Rightarrow> (Some (run_status s2 caller), s2)
           | (False, s2) \<Rightarrow> (None, s2))"

text \<open>\<open>DedicatedThread::RunWithoutWaiting\<close>.\<close>

definition RunWithoutWaiting :: "act list \<Rightarrow> DedicatedThread \<Rightarrow> DedicatedThread" where
  "RunWithoutWaiting gl_func s = PutJob (VoidJob gl_func) (note_submitted Queued gl_func s)"


subsection \<open>What running a function leaves unchanged\<close>

lemma exec_frame [simp]:
  "gl_thread (exec f s) = gl_thread s"
  "terminated (exec f s) = terminated s"
  "run_done (exec f s) = run_done s"
  "run_status (exec f s) = run_status s"
  by (induction f s rule: exec.induct)
     (simp_all add: note_started_def note_submitted_def PutJob_def)



lemma exec_started:
  "\<exists>new. started (exec f s) = started s @ new"
proof (induction f s rule: exec.induct)
  case (3 gl_func st rest s)
  let ?s1 = "note_started Inline gl_func (note_submitted Inline gl_func s)"
  from 3(1) obtain n1 where n1: "started (exec gl_func ?s1) = started ?s1 @ n1" by blast
  from 3(2) obtain n2 where n2: "started (exec rest (exec gl_func ?s1)) = started (exec gl_func ?s1) @ n2"
    by blast
  have "started (exec (CallRun gl_func st # rest) s) = started s @ ((Inline, gl_func) # n1 @ n2)"
    using n1 n2 by (simp add: note_started_def note_submitted_def)
  then show ?case by blast
qed (simp_all add: note_submitted_def PutJob_def)




subsection \<open>One job\<close>

fun lambda_of :: "thread_id \<Rightarrow> Job \<Rightarrow> bool" where
  "lambda_of caller (RunLambda c f st) = (c = caller)"
| "lambda_of caller j = False"




lemma run_job_gl_thread [simp]: "gl_thread (run_job job s) = gl_thread s"
  by (cases job) (auto simp: run_job_def Let_def note_started_def)


lemma run_job_started_mono: "\<exists>new. started (run_job job s) = started s @ new"
proof (cases job)
  case EmptyJob
  then show ?thesis by (simp add: run_job_def)
next
  case (VoidJob f)
  with exec_started [of f "note_started Queued f s"] show ?thesis
    by (auto simp: run_job_def note_started_def)
next
  case (RunLambda c f st)
  with exec_started [of f "note_started Queued f s"] show ?thesis
    by (auto simp: run_job_def note_started_def Let_def)
qed



lemma run_job_keeps:
  "\<not> lambda_of caller job \<Longrightarrow> run_status (run_job job s) caller = run_status s caller"
  by (cases job) (auto simp: run_job_def Let_def note_started_def)

subsection \<open>When the wait of \<open>Run\<close> ends\<close>







subsection \<open>\<open>Run\<close> from the dedicated thread and from other threads\<close>


text \<open>
  The state in which a caller other than the dedicated thread starts to wait: its
  \<open>done\<close> is \<open>false\<close> and its lambda stands at the back of the queue.
\<close>

definition enqueued_for_Run :: "thread_id \<Rightarrow> act list \<Rightarrow> status \<Rightarrow> DedicatedThread \<Rightarrow> DedicatedThread" where
  "enqueued_for_Run caller gl_func st s =
     s\<lparr>jobs := jobs s @ [RunLambda caller gl_func st],
       run_done := (run_done s)(caller := False),
       submitted := submitted s @ [(Queued, gl_func)]\<rparr>"

lemma Run_foreign:
  "caller \<noteq> gl_thread s \<Longrightarrow>
     Run caller gl_func st s =
       (if fst (await caller (enqueued_for_Run caller gl_func st s))
        then Some (run_status (snd (await caller (enqueued_for_Run caller gl_func st s))) caller)
        else None,
        snd (await caller (enqueued_for_Run caller gl_func st s)))"
proof -
  assume a: "caller \<noteq> gl_thread s"
  have e: "PutJob (RunLambda caller gl_func st)
             (note_submitted Queued gl_func (s\<lparr>run_done := (run_done s)(caller := False)\<rparr>))
           = enqueued_for_Run caller gl_func st s"
    by (simp add: PutJob_def note_submitted_def enqueued_for_Run_def)
  obtain b s' where r: "await caller (enqueued_for_Run caller gl_func st s) = (b, s')"
    by (cases "await caller (enqueued_for_Run caller gl_func st s)")
  show ?thesis
    using a by (cases b) (simp_all add: Run_def Let_def e r)
qed






subsection \<open>The order in which jobs run\<close>




datatype call =
    ExternalRun thread_id "act list" status
  | ExternalRunWithoutWaiting thread_id "act list"
  | WorkerTurn

fun schedule_step :: "DedicatedThread \<Rightarrow> call \<Rightarrow> DedicatedThread" where
  "schedule_step s (ExternalRun caller gl_func st) = snd (Run caller gl_func st s)"
| "schedule_step s (ExternalRunWithoutWaiting caller gl_func) = RunWithoutWaiting gl_func s"
| "schedule_step s WorkerTurn = worker_step s"






lemma await_invariant:
  assumes "\<And>s. P s \<Longrightarrow> P (worker_step s)" and "P s"
  shows "P (snd (await caller s))"
  using assms(2)
proof (induction caller s rule: await.induct)
  case (1 caller s)
  show ?case
  proof (cases "run_done s caller \<or> terminated s \<or> jobs s = []")
    case True
    with "1.prems" show ?thesis by (subst await.simps) auto
  next
    case False
    then have "await caller s = await caller (worker_step s)"
      by (subst await.simps) simp
    with "1.IH" [OF _ _ assms(1) [OF "1.prems"]] False show ?thesis by simp
  qed
qed





subsection \<open>Jobs that only have effects\<close>










lemma await_gl_thread [simp]: "gl_thread (snd (await caller s)) = gl_thread s"
proof -
  have w: "\<And>s'. gl_thread (worker_step s') = gl_thread s'"
    by (auto simp: worker_step_def GetJob_def split: list.splits)
  have "(\<lambda>s'. gl_thread s' = gl_thread s) (snd (await caller s))"
    by (rule await_invariant) (simp_all add: w)
  then show ?thesis .
qed

lemma schedule_step_gl_thread [simp]: "gl_thread (schedule_step s c) = gl_thread s"
proof (cases c)
  case (ExternalRun caller f st)
  then show ?thesis
    by (cases "caller = gl_thread s")
       (simp_all add: Run_foreign enqueued_for_Run_def, simp add: Run_def note_started_def note_submitted_def)
next
  case (ExternalRunWithoutWaiting caller f)
  then show ?thesis by (simp add: RunWithoutWaiting_def PutJob_def note_submitted_def)
next
  case WorkerTurn
  then show ?thesis by (auto simp: worker_step_def GetJob_def split: list.splits)
qed















subsection \<open>\<open>GlContext::Run\<close> with and without a dedicated thread\<close>

text \<open>
  A function body called in the calling thread, on a context without a dedicated
  thread. The thread is current on the context then, so a \<open>Run\<close> or a
  \<open>RunWithoutWaiting\<close> from inside goes through \<open>SwitchContextAndRun\<close> again, where
  \<open>SwitchContext\<close> finds the context current already and does nothing: the inner
  function is called in place as well.
\<close>

fun run_in_place :: "act list \<Rightarrow> nat list \<Rightarrow> nat list" where
  "run_in_place [] effs = effs"
| "run_in_place (Effect n # rest) effs = run_in_place rest (effs @ [n])"
| "run_in_place (CallRun gl_func st # rest) effs = run_in_place rest (run_in_place gl_func effs)"
| "run_in_place (CallRunWithoutWaiting gl_func # rest) effs =
     run_in_place rest (run_in_place gl_func effs)"

text \<open>
  \<open>SwitchContextAndRun\<close> on the effects seen so far: when the context cannot be
  entered, the function is not called.
\<close>

definition SwitchContextAndRun ::
  "gl_platform \<Rightarrow> act list \<Rightarrow> status \<Rightarrow> nat list \<Rightarrow> status \<times> nat list" where
  "SwitchContextAndRun plat gl_func st effs =
     (if enter_context plat \<noteq> OkStatus
      then (append_message (enter_context plat) '' (entering GL context)'', effs)
      else
        let effs1 = run_in_place gl_func effs
        in if exit_context plat \<noteq> OkStatus
           then (append_message (exit_context plat) '' (exiting GL context)'', effs1)
           else (st, effs1))"

text \<open>
  A context as \<open>GlContext::Run\<close> sees it: with its dedicated thread (\<open>thread_\<close> is
  set), or without one, and then with the effects that callers had on it.
\<close>

datatype run_context =
    Threaded DedicatedThread
  | Threadless "nat list"




text \<open>\<open>GlContext::RunWithoutWaiting\<close>; without a thread the status is only logged.\<close>

fun GlContext_RunWithoutWaiting :: "gl_platform \<Rightarrow> act list \<Rightarrow> run_context \<Rightarrow> run_context" where
  "GlContext_RunWithoutWaiting plat gl_func (Threaded s) = Threaded (RunWithoutWaiting gl_func s)"
| "GlContext_RunWithoutWaiting plat gl_func (Threadless effs) =
     Threadless (snd (SwitchContextAndRun plat gl_func OkStatus effs))"

subsection \<open>Constructing a \<open>GlFenceSyncPoint\<close>\<close>













section \<open>Handing a thread over from one context to another\<close>

text \<open>
  For the examples: a thread 5 that is current on context 1 and holds its mutex, a
  target context 2, a platform on which no binding call succeeds, one on which
  every binding call succeeds, and one on which only the unbinding succeeds.
\<close>

definition failing_platform :: platform_binding where
  "failing_platform binding native = (ErrorStatus ''eglMakeCurrent() returned error'', native)"

definition bound_thread :: switch_state where
  "bound_thread =
     \<lparr>CurrentContext = Some 1, native_current = Some 11,
      context_use_mutex = (\<lambda>c. if c = 1 then Some 5 else None), switch_trace = []\<rparr>"

definition target_binding :: ContextBinding where
  "target_binding = \<lparr>context_object = Some 2, native_context = Some 22\<rparr>"


definition willing_platform :: platform_binding where
  "willing_platform binding native = (OkStatus, native_context binding)"

definition picky_platform :: platform_binding where
  "picky_platform binding native =
     (if native_context binding = None then (OkStatus, None)
      else (ErrorStatus ''eglMakeCurrent() returned error'', native))"

lemma SwitchContext_same:
  "context_object new_context = Some new \<Longrightarrow> CurrentContext s = Some new \<Longrightarrow>
     SwitchContext platform caller False new_context s = (Some OkStatus, None, s)"
  by (simp add: SwitchContext_def)

lemma SwitchContext_unbind_fails:
  assumes "CurrentContext s = Some old" and "context_object new_context \<noteq> Some old"
    and "platform no_context (native_current s) = (st, native')" and "st \<noteq> OkStatus"
  shows "fst (SwitchContext platform caller want_saved new_context s) = Some st"
    and "snd (snd (SwitchContext platform caller want_saved new_context s)) =
           s\<lparr>native_current := native', switch_trace := switch_trace s @ [SetBinding no_context st]\<rparr>"
  using assms
  by (simp_all add: SwitchContext_def SetCurrentContextBinding_def Let_def)

lemma SwitchContext_from_none:
  assumes "context_object new_context = Some new" and "CurrentContext s = None"
    and "context_use_mutex s new = None"
    and "platform new_context (native_current s) = (status, native')"
  shows "SwitchContext platform caller want_saved new_context s =
     (Some status,
      if want_saved then Some \<lparr>context_object = None, native_context = native_current s\<rparr> else None,
      if status = OkStatus
      then s\<lparr>CurrentContext := Some new, native_current := native',
             context_use_mutex := (context_use_mutex s)(new := Some caller),
             switch_trace := switch_trace s @ [Lock new, SetBinding new_context status, SetCurrent new]\<rparr>
      else s\<lparr>native_current := native',
             context_use_mutex := (context_use_mutex s)(new := None),
             switch_trace := switch_trace s @ [Lock new, SetBinding new_context status, Unlock new]\<rparr>)"
  using assms
  by (simp add: SwitchContext_def SetCurrentContextBinding_def Let_def mutex_Lock_def mutex_Unlock_def)

lemma SwitchContext_from_old:
  assumes "context_object new_context = Some new" and "CurrentContext s = Some old" and "old \<noteq> new"
    and "context_use_mutex s new = None"
    and "platform no_context (native_current s) = (OkStatus, native1)"
    and "platform new_context native1 = (status, native')"
  shows "SwitchContext platform caller want_saved new_context s =
     (Some status,
      if want_saved then Some \<lparr>context_object = Some old, native_context = native_current s\<rparr> else None,
      if status = OkStatus
      then s\<lparr>CurrentContext := Some new, native_current := native',
             context_use_mutex := (context_use_mutex s)(old := None, new := Some caller),
             switch_trace := switch_trace s @
               [SetBinding no_context OkStatus, Unlock old, ResetCurrent,
                Lock new, SetBinding new_context status, SetCurrent new]\<rparr>
      else s\<lparr>CurrentContext := None, native_current := native',
             context_use_mutex := (context_use_mutex s)(old := None, new := None),
             switch_trace := switch_trace s @
               [SetBinding no_context OkStatus, Unlock old, ResetCurrent,
                Lock new, SetBinding new_context status, Unlock new]\<rparr>)"
  using assms
  by (simp add: SwitchContext_def SetCurrentContextBinding_def Let_def mutex_Lock_def mutex_Unlock_def)

text \<open>
  Claim C8, as amended. \<open>SwitchContext\<close> to a target context object other than the
  thread's current one, with the target's mutex free: when there is a current
  context it first asks the platform to unbind; if that fails it returns the
  error at once, the thread still current on the old context and holding its
  mutex. Otherwise it releases the old mutex and clears \<open>CurrentContext()\<close>, then
  locks the target's mutex and attempts to bind; when the bind fails it unlocks
  the target's mutex again and returns the error, with no current context; when
  it succeeds the thread is current on the target and holds its mutex.
\<close>

theorem SwitchContext_hands_over:
  assumes "context_object new_context = Some new"
    and "CurrentContext s \<noteq> Some new"
    and "context_use_mutex s new = None"
  shows "if CurrentContext s \<noteq> None \<and> fst (platform no_context (native_current s)) \<noteq> OkStatus
         then fst (SwitchContext platform caller want_saved new_context s) =
                Some (fst (platform no_context (native_current s))) \<and>
              CurrentContext (snd (snd (SwitchContext platform caller want_saved new_context s))) =
                CurrentContext s \<and>
              context_use_mutex (snd (snd (SwitchContext platform caller want_saved new_context s))) =
                context_use_mutex s \<and>
              switch_trace (snd (snd (SwitchContext platform caller want_saved new_context s))) =
                switch_trace s @ [SetBinding no_context (fst (platform no_context (native_current s)))]
         else switch_as_claimed platform caller want_saved new_context new s \<and>
              (\<forall>old. CurrentContext s = Some old \<longrightarrow>
                 context_use_mutex (snd (snd (SwitchContext platform caller want_saved new_context s))) old
                   = None) \<and>
              (fst (SwitchContext platform caller want_saved new_context s) = Some OkStatus \<longrightarrow>
                 CurrentContext (snd (snd (SwitchContext platform caller want_saved new_context s)))
                   = Some new \<and>
                 context_use_mutex (snd (snd (SwitchContext platform caller want_saved new_context s))) new
                   = Some caller)"
proof (cases "CurrentContext s")
  case None
  obtain status native' where p: "platform new_context (native_current s) = (status, native')"
    by (cases "platform new_context (native_current s)")
  show ?thesis
    using None
    by (simp add: switch_as_claimed_def release_steps_def
          SwitchContext_from_none [where platform = platform, OF assms(1) None assms(3) p])
next
  case (Some old)
  with assms(2) have ne: "old \<noteq> new" by simp
  obtain st native1 where p1: "platform no_context (native_current s) = (st, native1)"
    by (cases "platform no_context (native_current s)")
  show ?thesis
  proof (cases "st = OkStatus")
    case True
    obtain status native' where p2: "platform new_context native1 = (status, native')"
      by (cases "platform new_context native1")
    show ?thesis
      using Some ne True p1
      by (simp add: switch_as_claimed_def release_steps_def
            SwitchContext_from_old [where platform = platform,
              OF assms(1) Some ne assms(3) p1 [unfolded True] p2])
  next
    case False
    have o: "context_object new_context \<noteq> Some old"
      using assms(1) ne by simp
    show ?thesis
      using Some False p1
        SwitchContext_unbind_fails [where platform = platform, OF Some o p1 False, of caller want_saved]
      by simp
  qed
qed

theorem SwitchContext_hands_over_witness:
  "switch_as_claimed picky_platform 5 True target_binding 2 bound_thread \<and>
   fst (SwitchContext picky_platform 5 True target_binding bound_thread) =
     Some (ErrorStatus ''eglMakeCurrent() returned error'') \<and>
   context_use_mutex (snd (snd (SwitchContext picky_platform 5 True target_binding bound_thread))) 1 = None \<and>
   fst (SwitchContext willing_platform 5 True target_binding bound_thread) = Some OkStatus \<and>
   CurrentContext (snd (snd (SwitchContext willing_platform 5 True target_binding bound_thread))) = Some 2 \<and>
   context_use_mutex (snd (snd (SwitchContext willing_platform 5 True target_binding bound_thread))) 2 = Some 5"
proof -
  have h: "context_object target_binding = Some 2" "CurrentContext bound_thread \<noteq> Some 2"
    "context_use_mutex bound_thread 2 = None"
    by (simp_all add: target_binding_def bound_thread_def)
  have u: "fst (picky_platform no_context (native_current bound_thread)) = OkStatus"
    "fst (willing_platform no_context (native_current bound_thread)) = OkStatus"
    by (simp_all add: picky_platform_def willing_platform_def no_context_def)
  have v: "fst (SwitchContext picky_platform 5 True target_binding bound_thread) =
     Some (ErrorStatus ''eglMakeCurrent() returned error'')"
    by (simp add: SwitchContext_def SetCurrentContextBinding_def Let_def mutex_Lock_def
          mutex_Unlock_def target_binding_def bound_thread_def picky_platform_def no_context_def)
  have w: "fst (SwitchContext willing_platform 5 True target_binding bound_thread) = Some OkStatus"
    by (simp add: SwitchContext_def SetCurrentContextBinding_def Let_def mutex_Lock_def
          mutex_Unlock_def target_binding_def bound_thread_def willing_platform_def no_context_def)
  have c: "CurrentContext bound_thread = Some 1"
    by (simp add: bound_thread_def)
  have a: "switch_as_claimed picky_platform 5 True target_binding 2 bound_thread \<and>
     context_use_mutex (snd (snd (SwitchContext picky_platform 5 True target_binding bound_thread))) 1 = None"
    using SwitchContext_hands_over [where platform = picky_platform, OF h, of 5 True] u v c by simp
  have b: "CurrentContext (snd (snd (SwitchContext willing_platform 5 True target_binding bound_thread))) = Some 2 \<and>
     context_use_mutex (snd (snd (SwitchContext willing_platform 5 True target_binding bound_thread))) 2 = Some 5"
    using SwitchContext_hands_over [where platform = willing_platform, OF h, of 5 True] u w c by simp
  show ?thesis using a b v w by simp
qed

text \<open>
  Claim C8 as stated fails when the platform refuses to unbind the old context:
  the old mutex is not released, the target's mutex is never taken, no bind is
  attempted, and the thread stays current on the old context.
\<close>

theorem SwitchContext_unbind_failure_counterexample:
  "\<not> switch_as_claimed failing_platform 5 True target_binding 2 bound_thread \<and>
   fst (SwitchContext failing_platform 5 True target_binding bound_thread) =
     Some (ErrorStatus ''eglMakeCurrent() returned error'') \<and>
   CurrentContext (snd (snd (SwitchContext failing_platform 5 True target_binding bound_thread))) = Some 1 \<and>
   context_use_mutex (snd (snd (SwitchContext failing_platform 5 True target_binding bound_thread))) 1 = Some 5 \<and>
   switch_trace (snd (snd (SwitchContext failing_platform 5 True target_binding bound_thread))) =
     [SetBinding no_context (ErrorStatus ''eglMakeCurrent() returned error'')]"
proof -
  have p: "failing_platform no_context (native_current bound_thread) =
      (ErrorStatus ''eglMakeCurrent() returned error'', Some 11)"
    by (simp add: failing_platform_def bound_thread_def)
  have c: "CurrentContext bound_thread = Some 1" "context_object target_binding \<noteq> Some 1"
    by (simp_all add: bound_thread_def target_binding_def)
  note r = SwitchContext_unbind_fails [where platform = failing_platform, OF c p, of 5 True]
  have s: "snd (snd (SwitchContext failing_platform 5 True target_binding bound_thread)) =
       bound_thread\<lparr>native_current := Some 11,
         switch_trace := switch_trace bound_thread @
           [SetBinding no_context (ErrorStatus ''eglMakeCurrent() returned error'')]\<rparr>"
    using r(2) by simp
  have f: "fst (SwitchContext failing_platform 5 True target_binding bound_thread) =
     Some (ErrorStatus ''eglMakeCurrent() returned error'')"
    using r(1) by simp
  have n: "\<not> switch_as_claimed failing_platform 5 True target_binding 2 bound_thread"
    using f s
    by (cases "SwitchContext failing_platform 5 True target_binding bound_thread")
       (auto simp: switch_as_claimed_def release_steps_def bound_thread_def)
  show ?thesis
    using n f s by (simp add: bound_thread_def)
qed

end
